theory Spec2Isabelle
  imports Main "HOL-Library.Multiset"
begin

section \<open>Python values used by book_utils.py\<close>

text \<open>
  Exceptions are values, named after where they are raised. \<open>IndexError\<close> is a list
  index out of range and \<open>ValueError\<close>, with its message, a value refused by a
  built-in or by \<open>raise ValueError\<close>, both raised by the code of book_utils.py.
  \<open>OSError\<close> is a file that cannot be opened, with what the operating system
  reports, and \<open>CollaboratorError\<close> is any exception raised inside an imported
  helper (utils, epub_meta), whose code is not part of book_utils.py.
\<close>

datatype error = IndexError | ValueError string | OSError string | CollaboratorError string

text \<open>
  Python list indexing \<open>xs[i]\<close>: a negative index counts from the end, an index
  outside the list raises IndexError.
\<close>

definition py_index :: "'a list \<Rightarrow> int \<Rightarrow> error + 'a" where
  "py_index xs i =
     (if 0 \<le> i \<and> i < int (length xs) then Inr (xs ! nat i)
      else if i < 0 \<and> - int (length xs) \<le> i then Inr (xs ! nat (int (length xs) + i))
      else Inl IndexError)"

subsection \<open>str() of an integer\<close>

definition digit_char :: "nat \<Rightarrow> char" where
  "digit_char d = char_of (48 + d)"

fun str_nat :: "nat \<Rightarrow> string" where
  "str_nat n = (if n < 10 then [digit_char n] else str_nat (n div 10) @ [digit_char (n mod 10)])"

declare str_nat.simps [simp del]

definition str :: "int \<Rightarrow> string" where
  "str i = (if i < 0 then CHR ''-'' # str_nat (nat (- i)) else str_nat (nat i))"

subsection \<open>str.split with a one-character separator\<close>

fun split_on :: "char \<Rightarrow> string \<Rightarrow> string list" where
  "split_on sep [] = [[]]"
| "split_on sep (c # cs) =
     (if c = sep then [] # split_on sep cs
      else (case split_on sep cs of
              p # ps \<Rightarrow> (c # p) # ps
            | [] \<Rightarrow> [[c]]))"

subsection \<open>int() of a string\<close>

text \<open>
  \<open>int(s)\<close> strips surrounding whitespace, reads an optional sign and then decimal
  digits, which may be grouped by single underscores; anything else raises ValueError.
  Strings are modelled as 8-bit characters, among which the decimal digits are
  exactly \<open>0\<close> to \<open>9\<close>.
\<close>

definition is_digit :: "char \<Rightarrow> bool" where
  "is_digit c = (48 \<le> (of_char c :: nat) \<and> (of_char c :: nat) \<le> 57)"

definition is_space :: "char \<Rightarrow> bool" where
  "is_space c = ((of_char c :: nat) \<in> {9, 10, 11, 12, 13, 28, 29, 30, 31, 32, 133, 160})"

definition strip :: "string \<Rightarrow> string" where
  "strip s = rev (dropWhile is_space (rev (dropWhile is_space s)))"

definition digits_value :: "string \<Rightarrow> nat" where
  "digits_value ds = foldl (\<lambda>acc c. acc * 10 + (of_char c - 48)) 0 ds"

definition invalid_literal :: "string \<Rightarrow> error" where
  "invalid_literal s = ValueError (''invalid literal for int() with base 10: '' @ s)"

definition parse_digits :: "string \<Rightarrow> string \<Rightarrow> error + int" where
  "parse_digits s ds =
     (let groups = split_on (CHR ''_'') ds
      in if list_all (\<lambda>g. g \<noteq> [] \<and> list_all is_digit g) groups
         then Inr (int (digits_value (concat groups)))
         else Inl (invalid_literal s))"

definition py_int :: "string \<Rightarrow> error + int" where
  "py_int s =
     (case strip s of
        [] \<Rightarrow> Inl (invalid_literal s)
      | c # r \<Rightarrow>
          if c = CHR ''-'' then (case parse_digits s r of Inl e \<Rightarrow> Inl e | Inr v \<Rightarrow> Inr (- v))
          else if c = CHR ''+'' then parse_digits s r
          else parse_digits s (c # r))"

section \<open>The word list\<close>

text \<open>
  An entry of a frequency list has the attributes \<open>frequency\<close> and \<open>stars\<close>. An item
  of \<open>word_list\<close> is the dictionary built by \<open>analyse_ebook\<close>, with the keys
  \<open>word\<close>, \<open>ocurrences\<close> and \<open>frequency\<close>; the latter maps the name of a frequency
  list to the word's entry there. Text is a list of Unicode code points.
\<close>

type_synonym codepoint = nat

record freq_entry =
  fe_frequency :: int
  fe_stars :: int

record word_item =
  word :: "codepoint list"
  ocurrences :: int
  frequency :: "string \<rightharpoonup> freq_entry"

section \<open>Histogram bins\<close>

fun getmaximumfreq_from :: "int \<Rightarrow> word_item list \<Rightarrow> int" where
  "getmaximumfreq_from maximum_num [] = maximum_num"
| "getmaximumfreq_from maximum_num (i # rest) =
     (case frequency i ''netflix'' of
        Some e \<Rightarrow> getmaximumfreq_from (max maximum_num (fe_frequency e)) rest
      | None \<Rightarrow> getmaximumfreq_from maximum_num rest)"

definition getmaximumfreq :: "word_item list \<Rightarrow> int" where
  "getmaximumfreq word_list = getmaximumfreq_from 0 word_list"

definition bin_label :: "int \<Rightarrow> int \<Rightarrow> string" where
  "bin_label a b = str a @ ''-'' @ str b"

function generatebins_loop :: "int \<Rightarrow> int \<Rightarrow> int \<Rightarrow> string list \<Rightarrow> string list" where
  "generatebins_loop maximum_num a b lst =
     (if b \<le> maximum_num
      then generatebins_loop maximum_num b (b + 500) (lst @ [bin_label a b])
      else lst)"
  by pat_completeness auto
termination
  by (relation "measure (\<lambda>(m, a, b, lst). nat (m - b + 1))") auto

declare generatebins_loop.simps [simp del]

definition generatebins :: "int \<Rightarrow> string list" where
  "generatebins maximum_num = generatebins_loop maximum_num 0 500 []"

text \<open>
  \<open>getbins\<close>: the loop over \<open>range(len(bins))\<close>, from index \<open>i\<close>. The test
  \<open>freq_num >= int(lst[0]) and freq_num < int(lst[1])\<close> evaluates its second half
  only when the first holds.
\<close>

fun getbins_from :: "int \<Rightarrow> int \<Rightarrow> string list \<Rightarrow> error + int option" where
  "getbins_from freq_num i [] = Inr None"
| "getbins_from freq_num i (b # rest) =
     (let lst = split_on (CHR ''-'') b in
      case py_index lst 0 of Inl e \<Rightarrow> Inl e | Inr s0 \<Rightarrow>
      case py_int s0 of Inl e \<Rightarrow> Inl e | Inr lo \<Rightarrow>
        if freq_num \<ge> lo then
          (case py_index lst 1 of Inl e \<Rightarrow> Inl e | Inr s1 \<Rightarrow>
           case py_int s1 of Inl e \<Rightarrow> Inl e | Inr hi \<Rightarrow>
             if freq_num < hi then Inr (Some i) else getbins_from freq_num (i + 1) rest)
        else getbins_from freq_num (i + 1) rest)"

definition getbins :: "int \<Rightarrow> string list \<Rightarrow> error + int" where
  "getbins freq_num bins =
     (case getbins_from freq_num 0 bins of
        Inl e \<Rightarrow> Inl e
      | Inr (Some i) \<Rightarrow> Inr i
      | Inr None \<Rightarrow> Inr (int (length bins) - 1))"

section \<open>The histogram\<close>

text \<open>
  The data frame has the columns \<open>Range\<close> and \<open>Stars\<close>. It starts with the row
  \<open>("0-500", nan)\<close>; \<open>df.append\<close> adds a row at the end.
\<close>

datatype cell = NaN | Num int

record row =
  Range :: string
  Stars :: cell

definition seed_row :: row where
  "seed_row = \<lparr>Range = ''0-500'', Stars = NaN\<rparr>"

definition bin_row :: "string \<Rightarrow> row" where
  "bin_row i = \<lparr>Range = i, Stars = Num 0\<rparr>"

text \<open>The second loop of \<open>gethistogram\<close>, over the items of \<open>word_list\<close>.\<close>

fun append_words :: "string list \<Rightarrow> row list \<Rightarrow> word_item list \<Rightarrow> error + row list" where
  "append_words bins df [] = Inr df"
| "append_words bins df (i # rest) =
     (case frequency i ''netflix'' of
        None \<Rightarrow> append_words bins df rest
      | Some e \<Rightarrow>
          (case getbins (fe_frequency e) bins of Inl err \<Rightarrow> Inl err | Inr k \<Rightarrow>
           case py_index bins k of Inl err \<Rightarrow> Inl err | Inr r \<Rightarrow>
             append_words bins (df @ [\<lparr>Range = r, Stars = Num (fe_stars e)\<rparr>]) rest))"

text \<open>
  \<open>gethistogram\<close> returns nothing; what it computes is the data frame it hands to
  \<open>px.histogram\<close>, which is the value of the model.
\<close>

definition gethistogram :: "word_item list \<Rightarrow> error + row list" where
  "gethistogram word_list =
     (let bins = generatebins (getmaximumfreq word_list);
          df = [seed_row] @ map bin_row bins
      in append_words bins df word_list)"

text \<open>
  \<open>px.histogram(df, 'Range')\<close> draws one bar for each distinct value of the column
  \<open>Range\<close>, in the order of first appearance, whose height is the number of rows
  with that value.
\<close>

definition histogram :: "row list \<Rightarrow> (string \<times> nat) list" where
  "histogram df =
     (let col = map Range df
      in map (\<lambda>r. (r, count_list col r)) (rev (remdups (rev col))))"

definition has_netflix :: "word_item \<Rightarrow> bool" where
  "has_netflix i = (frequency i ''netflix'' \<noteq> None)"

section \<open>Analysing a book\<close>

text \<open>
  A \<open>Book\<close> is what \<open>process_file\<close> returns; \<open>book_data\<close> is the dictionary
  returned by \<open>analyse_ebook\<close>, with an item of \<open>chars\<close> being the dictionary
  with the keys \<open>character\<close> and \<open>occurences\<close>.
\<close>

record Book =
  book_path :: string
  book_title :: string
  book_authors :: "string list"
  book_image :: string
  book_file_hash :: string
  book_dir :: string

record char_item =
  character :: codepoint
  occurences :: int

record book_data =
  title :: string
  authors :: "string list"
  image :: string
  n_words :: int
  n_words_unique :: int
  n_words_used_once :: int
  n_chars :: int
  n_chars_unique :: int
  n_chars_used_once :: int
  words :: "word_item list"
  chars :: "char_item list"
  file_hash :: string

text \<open>
  \<open>sorted(xs, key=lambda tup: tup[1], reverse=True)\<close>: descending in the second
  component, and stable, so that items with equal keys keep the order they have in \<open>xs\<close>.
\<close>

definition sorted_by_uses :: "('a \<times> int) list \<Rightarrow> ('a \<times> int) list" where
  "sorted_by_uses xs = sort_key (\<lambda>tup. - snd tup) xs"

text \<open>
  \<open>[(x, xs.count(x)) for x in unique]\<close>, sorted. The comprehension runs over a
  Python set, in the order in which the interpreter iterates over it: \<open>unique\<close> is
  that order, a list.
\<close>

definition with_uses :: "'a list \<Rightarrow> 'a list \<Rightarrow> ('a \<times> int) list" where
  "with_uses xs unique = sorted_by_uses (map (\<lambda>x. (x, int (count_list xs x))) unique)"

definition used_once_of :: "('a \<times> int) list \<Rightarrow> 'a list" where
  "used_once_of uses = map fst (filter (\<lambda>tup. snd tup = 1) uses)"

text \<open>\<open>unique\<close> is an iteration order of \<open>set(xs)\<close>: each element of \<open>xs\<close>, once.\<close>

definition iterates :: "'a list \<Rightarrow> 'a list \<Rightarrow> bool" where
  "iterates unique xs = (distinct unique \<and> set unique = set xs)"

text \<open>
  Lines 120 to 153 of \<open>analyse_ebook\<close>: from the book, its text, the words that
  \<open>parse_sentence\<close> found in it, the iteration orders of \<open>set(text)\<close> and
  \<open>set(words)\<close>, and the frequency lookup, to the dictionary \<open>book_data\<close>.
\<close>

definition analyse_text ::
  "Book \<Rightarrow> codepoint list \<Rightarrow> codepoint list list \<Rightarrow> codepoint list \<Rightarrow> codepoint list list \<Rightarrow>
   (codepoint list \<Rightarrow> (string \<rightharpoonup> freq_entry)) \<Rightarrow> book_data" where
  "analyse_text book text tokens unique_chars unique_words get_freq =
     (let chars_with_uses = with_uses text unique_chars;
          chars_used_once = used_once_of chars_with_uses;
          words_with_uses = with_uses tokens unique_words;
          used_once = used_once_of words_with_uses;
          word_list = map (\<lambda>(w, n). \<lparr>word = w, ocurrences = n, frequency = get_freq w\<rparr>)
                          words_with_uses;
          char_list = map (\<lambda>(c, n). \<lparr>character = c, occurences = n\<rparr>) chars_with_uses
      in \<lparr>title = book_title book,
          authors = book_authors book,
          image = book_image book,
          n_words = int (length tokens),
          n_words_unique = int (card (set tokens)),
          n_words_used_once = int (length used_once),
          n_chars = int (length text),
          n_chars_unique = int (card (set text)),
          n_chars_used_once = int (length chars_used_once),
          words = word_list,
          chars = char_list,
          file_hash = book_file_hash book\<rparr>)"

section \<open>Processing a file\<close>

text \<open>
  What the program reads from outside: the bytes of a file (or what the operating system
  reports when it cannot be opened), the SHA-256 digest, the helpers that unpack an epub
  (each returns its value or fails with a message), the decoded text of a file, the
  tokenizer, the frequency lists, and the iteration order of a set.
\<close>

record epub_metadata =
  meta_title :: string
  meta_authors :: "string list"
  meta_cover_image_content :: string

record world =
  file_bytes :: "string \<Rightarrow> string + nat list"
  sha256_hex :: "nat list \<Rightarrow> string"
  remove_ruby_text_from_epub :: "string \<Rightarrow> string \<Rightarrow> string + string"
  get_epub_metadata :: "string \<Rightarrow> string + epub_metadata"
  save_base64_image :: "string \<Rightarrow> string \<Rightarrow> string + string"
  convert_epub_to_txt :: "string \<Rightarrow> string + string"
  read_text :: "string \<Rightarrow> error + codepoint list"
  parse_sentence :: "codepoint list \<Rightarrow> codepoint list list"
  get_frequency :: "codepoint list \<Rightarrow> (string \<rightharpoonup> freq_entry)"
  iter_chars :: "codepoint list \<Rightarrow> codepoint list"
  iter_words :: "codepoint list list \<Rightarrow> codepoint list list"

text \<open>
  \<open>sha256sum\<close> opens the file and maps it into memory; \<open>mmap\<close> refuses an empty
  file with a ValueError.
\<close>

definition sha256sum :: "world \<Rightarrow> string \<Rightarrow> error + string" where
  "sha256sum w filename =
     (case file_bytes w filename of
        Inl msg \<Rightarrow> Inl (OSError msg)
      | Inr bytes \<Rightarrow>
          if bytes = [] then Inl (ValueError ''cannot mmap an empty file'')
          else Inr (sha256_hex w bytes))"

definition process_epub :: "world \<Rightarrow> string \<Rightarrow> string \<Rightarrow> string \<Rightarrow> error + Book" where
  "process_epub w filename bdir fhash =
     (case remove_ruby_text_from_epub w filename (bdir @ ''/no-furigana.epub'') of
        Inl msg \<Rightarrow> Inl (CollaboratorError msg) | Inr bpath \<Rightarrow>
      case get_epub_metadata w bpath of
        Inl msg \<Rightarrow> Inl (CollaboratorError msg) | Inr book_metadata \<Rightarrow>
      case save_base64_image w (meta_cover_image_content book_metadata)
             (bdir @ ''/cover-image.jpg'') of
        Inl msg \<Rightarrow> Inl (CollaboratorError msg) | Inr image_path \<Rightarrow>
      case convert_epub_to_txt w bpath of
        Inl msg \<Rightarrow> Inl (CollaboratorError msg) | Inr txt_file \<Rightarrow>
        Inr \<lparr>book_path = txt_file,
             book_title = meta_title book_metadata,
             book_authors = meta_authors book_metadata,
             book_image = image_path,
             book_file_hash = fhash,
             book_dir = bdir\<rparr>)"

text \<open>\<open>s.replace(old, new)\<close>: every occurrence of \<open>old\<close>, from the left, without overlap.\<close>

function replace_from :: "string \<Rightarrow> string \<Rightarrow> string \<Rightarrow> string" where
  "replace_from old new s =
     (if s = [] then []
      else if old \<noteq> [] \<and> take (length old) s = old
           then new @ replace_from old new (drop (length old) s)
           else hd s # replace_from old new (tl s))"
  by pat_completeness auto
termination
  by (relation "measure (\<lambda>(old, new, s). length s)") auto

declare replace_from.simps [simp del]

definition replace :: "string \<Rightarrow> string \<Rightarrow> string \<Rightarrow> string" where
  "replace s old new =
     (if old = [] then new @ concat (map (\<lambda>c. c # new) s) else replace_from old new s)"

definition process_txt :: "string \<Rightarrow> string \<Rightarrow> string \<Rightarrow> Book" where
  "process_txt filename bdir fhash =
     (let extension = ''.'' @ last (split_on (CHR ''.'') filename);
          ttl = replace (last (split_on (CHR ''/'') filename)) extension []
      in \<lparr>book_path = filename,
          book_title = ttl,
          book_authors = [],
          book_image = [],
          book_file_hash = fhash,
          book_dir = bdir\<rparr>)"

definition extension_error :: error where
  "extension_error = ValueError ''Filename extension must be one of epub,txt''"

definition process_file :: "world \<Rightarrow> string \<Rightarrow> error + Book" where
  "process_file w filename =
     (let extension = last (split_on (CHR ''.'') filename)
      in case sha256sum w filename of
           Inl e \<Rightarrow> Inl e
         | Inr fhash \<Rightarrow>
             (let bdir = ''static/books/'' @ fhash
              in if extension = ''epub'' then process_epub w filename bdir fhash
                 else if extension = ''txt'' then Inr (process_txt filename bdir fhash)
                 else Inl extension_error))"

text \<open>
  \<open>analyse_ebook\<close>: the book, its text, the dictionary, and then the histogram, whose
  failure is the failure of the whole call. Creating the tagger, loading the frequency
  lists, writing book\_data.json and cleaning the directories are taken to succeed.
\<close>

definition analyse_ebook :: "world \<Rightarrow> string \<Rightarrow> error + book_data" where
  "analyse_ebook w filename =
     (case process_file w filename of Inl e \<Rightarrow> Inl e | Inr book \<Rightarrow>
      case read_text w (book_path book) of Inl e \<Rightarrow> Inl e | Inr text \<Rightarrow>
        (let tokens = parse_sentence w text;
             bd = analyse_text book text tokens (iter_chars w text) (iter_words w tokens)
                    (get_frequency w)
         in case gethistogram (words bd) of Inl e \<Rightarrow> Inl e | Inr df \<Rightarrow> Inr bd))"

section \<open>Notions used to state the properties\<close>

text \<open>
  A bin with the natural edges \<open>a\<close> and \<open>b\<close> is the label \<open>a-b\<close>, and holds the
  frequencies of the half-open range from \<open>a\<close> to \<open>b\<close>.
\<close>

definition bin_of :: "nat \<times> nat \<Rightarrow> string" where
  "bin_of p = bin_label (int (fst p)) (int (snd p))"

definition in_bin :: "int \<Rightarrow> nat \<times> nat \<Rightarrow> bool" where
  "in_bin f p = (int (fst p) \<le> f \<and> f < int (snd p))"

text \<open>The \<open>k\<close>-th bin of width 500.\<close>

definition kth_bin :: "nat \<Rightarrow> string" where
  "kth_bin k = bin_label (500 * int k) (500 * int k + 500)"

text \<open>
  An item for the word of the single code point U+732B, used three times, whose
  entry in the list \<open>netflix\<close> has the frequency \<open>f\<close> and \<open>s\<close> stars.
\<close>

definition neko_item :: "int \<Rightarrow> int \<Rightarrow> word_item" where
  "neko_item f s =
     \<lparr>word = [29483], ocurrences = 3,
      frequency = [''netflix'' \<mapsto> \<lparr>fe_frequency = f, fe_stars = s\<rparr>]\<rparr>"

text \<open>
  The text of nine code points U+732B U+304C U+732B U+3092 U+898B U+305F U+3002 U+732B
  U+3002, its eight tokens, a book, and a world in which every helper succeeds, no word
  is in a frequency list, the tokenizer gives these tokens, and a set is iterated in the
  order of last occurrence. The files of the world are a parameter.
\<close>

definition neko_text :: "codepoint list" where
  "neko_text = [29483, 12364, 29483, 12434, 35211, 12383, 12290, 29483, 12290]"

definition neko_tokens :: "codepoint list list" where
  "neko_tokens = [[29483], [12364], [29483], [12434], [35211, 12383], [12290], [29483], [12290]]"

definition neko_book :: Book where
  "neko_book = \<lparr>book_path = ''neko.txt'', book_title = ''neko'', book_authors = [],
                book_image = [], book_file_hash = ''00'', book_dir = ''static/books/00''\<rparr>"

definition no_frequency :: "codepoint list \<Rightarrow> (string \<rightharpoonup> freq_entry)" where
  "no_frequency w = Map.empty"

definition neko_world :: "(string \<Rightarrow> string + nat list) \<Rightarrow> world" where
  "neko_world files =
     \<lparr>file_bytes = files,
      sha256_hex = (\<lambda>bytes. ''00''),
      remove_ruby_text_from_epub = (\<lambda>filename new_filename. Inr new_filename),
      get_epub_metadata = (\<lambda>p. Inr \<lparr>meta_title = ''neko'', meta_authors = [],
                                       meta_cover_image_content = []\<rparr>),
      save_base64_image = (\<lambda>img p. Inr p),
      convert_epub_to_txt = (\<lambda>p. Inr (p @ ''.txt'')),
      read_text = (\<lambda>p. Inr neko_text),
      parse_sentence = (\<lambda>t. neko_tokens),
      get_frequency = no_frequency,
      iter_chars = remdups,
      iter_words = remdups\<rparr>"

text \<open>
  The files of two worlds: one in which every file holds the three bytes of U+732B in
  UTF-8, and one in which no file can be opened.
\<close>

definition neko_files :: "string \<Rightarrow> string + nat list" where
  "neko_files filename = Inr [231, 140, 171]"

definition missing_files :: "string \<Rightarrow> string + nat list" where
  "missing_files filename = Inl ''No such file or directory''"

section \<open>Strings and numbers\<close>

lemma of_char_digit_char: "d < 10 \<Longrightarrow> (of_char (digit_char d) :: nat) = 48 + d"
  by (simp add: digit_char_def)

lemma is_digit_digit_char: "d < 10 \<Longrightarrow> is_digit (digit_char d)"
  by (simp add: is_digit_def of_char_digit_char)

lemma str_nat_digits: "list_all is_digit (str_nat n)"
proof (induction n rule: str_nat.induct)
  case (1 n)
  show ?case
  proof (cases "n < 10")
    case True
    then show ?thesis by (subst str_nat.simps) (simp add: is_digit_digit_char)
  next
    case False
    with 1 show ?thesis by (subst str_nat.simps) (simp add: is_digit_digit_char)
  qed
qed

lemma str_nat_nonempty: "str_nat n \<noteq> []"
  by (subst str_nat.simps) simp

lemma digits_value_snoc: "digits_value (ds @ [c]) = digits_value ds * 10 + (of_char c - 48)"
  by (simp add: digits_value_def)

lemma digits_value_str_nat: "digits_value (str_nat n) = n"
proof (induction n rule: str_nat.induct)
  case (1 n)
  show ?case
  proof (cases "n < 10")
    case True
    then show ?thesis by (subst str_nat.simps) (simp add: digits_value_def of_char_digit_char)
  next
    case False
    with 1 show ?thesis
      by (subst str_nat.simps) (simp add: digits_value_snoc of_char_digit_char)
  qed
qed

lemma split_on_absent: "sep \<notin> set s \<Longrightarrow> split_on sep s = [s]"
  by (induction s) auto

lemma split_on_first: "sep \<notin> set xs \<Longrightarrow> split_on sep (xs @ sep # ys) = xs # split_on sep ys"
  by (induction xs) auto

lemma split_on_nonempty: "split_on sep s \<noteq> []"
  by (induction s) (auto split: list.splits)

lemma digit_not_space: "is_digit c \<Longrightarrow> \<not> is_space c"
  by (auto simp: is_digit_def is_space_def)

lemma digit_not_special: "is_digit c \<Longrightarrow> c \<noteq> CHR ''-'' \<and> c \<noteq> CHR ''+'' \<and> c \<noteq> CHR ''_''"
  by (auto simp: is_digit_def)

lemma strip_digits:
  assumes ne: "ds \<noteq> []" and dg: "list_all is_digit ds"
  shows "strip ds = ds"
proof -
  from ne dg have h: "\<not> is_space (hd ds)" and l: "\<not> is_space (last ds)"
    by (auto simp: list_all_iff digit_not_space)
  from ne h have a: "dropWhile is_space ds = ds" by (cases ds) auto
  from ne l have b: "dropWhile is_space (rev ds) = rev ds"
    by (cases "rev ds") (auto simp: last_rev hd_rev[symmetric] dest: arg_cong[where f=hd])
  show ?thesis by (simp add: strip_def a b)
qed

lemma py_int_digits:
  assumes "ds \<noteq> []" "list_all is_digit ds"
  shows "py_int ds = Inr (int (digits_value ds))"
proof -
  from assms obtain c r where ds: "ds = c # r" by (cases ds) auto
  have nu: "CHR ''_'' \<notin> set ds" using assms(2) digit_not_special by (auto simp: list_all_iff)
  have sp: "split_on (CHR ''_'') ds = [ds]" using nu by (rule split_on_absent)
  have c: "c \<noteq> CHR ''-''" "c \<noteq> CHR ''+''" using assms(2) ds digit_not_special by auto
  have pd: "parse_digits ds ds = Inr (int (digits_value ds))"
    using assms by (simp add: parse_digits_def sp)
  show ?thesis using c pd strip_digits[OF assms] ds by (simp add: py_int_def)
qed

lemma py_int_str_nat: "py_int (str_nat n) = Inr (int n)"
  by (simp add: py_int_digits str_nat_nonempty str_nat_digits digits_value_str_nat)

lemma str_nat_no_dash: "CHR ''-'' \<notin> set (str_nat n)"
  using str_nat_digits[of n] digit_not_special by (auto simp: list_all_iff)

lemma str_of_nat: "str (int n) = str_nat n"
  by (simp add: str_def)

lemma split_bin_label: "split_on (CHR ''-'') (bin_label (int a) (int b)) = [str_nat a, str_nat b]"
  by (simp add: bin_label_def str_of_nat split_on_first split_on_absent str_nat_no_dash)

section \<open>The bins\<close>

lemma getbins_from_Cons:
  "getbins_from f i (bin_of p # rest) =
   (if in_bin f p then Inr (Some i) else getbins_from f (i + 1) rest)"
  by (simp add: bin_of_def split_bin_label py_index_def py_int_str_nat in_bin_def)

lemma getbins_from_none:
  "\<forall>p\<in>set ps. \<not> in_bin f p \<Longrightarrow> getbins_from f i (map bin_of ps) = Inr None"
  by (induction ps arbitrary: i) (simp_all add: getbins_from_Cons del: getbins_from.simps(2))

lemma getbins_from_some:
  "j < length ps \<Longrightarrow> in_bin f (ps ! j) \<Longrightarrow> \<forall>k<j. \<not> in_bin f (ps ! k) \<Longrightarrow>
   getbins_from f i (map bin_of ps) = Inr (Some (i + int j))"
proof (induction ps arbitrary: i j)
  case Nil
  then show ?case by simp
next
  case (Cons p ps)
  show ?case
  proof (cases j)
    case 0
    with Cons.prems show ?thesis by (simp add: getbins_from_Cons del: getbins_from.simps(2))
  next
    case (Suc j')
    with Cons.prems have np: "\<not> in_bin f p" by auto
    from Suc Cons.prems
    have "getbins_from f (i + 1) (map bin_of ps) = Inr (Some (i + 1 + int j'))"
      by (intro Cons.IH) auto
    with np Suc show ?thesis by (simp add: getbins_from_Cons del: getbins_from.simps(2))
  qed
qed

lemma generatebins_loop_eq:
  "generatebins_loop m (b - 500) b lst =
   lst @ map (\<lambda>k. bin_label (b - 500 + 500 * int k) (b + 500 * int k))
           [0..<nat ((m - b + 500) div 500)]"
proof (induction m "b - 500" b lst rule: generatebins_loop.induct)
  case (1 m b lst)
  show ?case
  proof (cases "b \<le> m")
    case False
    then have "nat ((m - b + 500) div 500) = 0" by simp
    with False show ?thesis by (subst generatebins_loop.simps) simp
  next
    case True
    have n: "nat ((m - b + 500) div 500) = Suc (nat ((m - (b + 500) + 500) div 500))"
      using True
      by (simp add: Suc_nat_eq_nat_zadd1 div_add_self2[symmetric] algebra_simps del: div_add_self2)
    have ih: "generatebins_loop m b (b + 500) (lst @ [bin_label (b - 500) b]) =
      (lst @ [bin_label (b - 500) b]) @
      map (\<lambda>k. bin_label (b + 500 - 500 + 500 * int k) (b + 500 + 500 * int k))
        [0..<nat ((m - (b + 500) + 500) div 500)]"
      using 1[OF True] by simp
    show ?thesis
      apply (subst generatebins_loop.simps)
      apply (simp only: True if_True ih n map_upt_Suc)
      apply (simp add: algebra_simps)
      done
  qed
qed

lemma generatebins_eq: "generatebins m = map kth_bin [0..<nat (m div 500)]"
  using generatebins_loop_eq[of m 500 "[]"]
  by (simp add: generatebins_def kth_bin_def algebra_simps)

lemma kth_bin_of: "kth_bin k = bin_of (500 * k, 500 * k + 500)"
  by (simp add: kth_bin_def bin_of_def)

lemma getmaximumfreq_from_ge: "m \<le> getmaximumfreq_from m wl"
proof (induction wl arbitrary: m)
  case Nil
  show ?case by simp
next
  case (Cons i rest)
  show ?case
  proof (cases "frequency i ''netflix''")
    case None
    with Cons.IH[of m] show ?thesis by simp
  next
    case (Some e)
    with Cons.IH[of "max m (fe_frequency e)"] show ?thesis by simp
  qed
qed

lemma getmaximumfreq_from_upper:
  "i \<in> set wl \<Longrightarrow> frequency i ''netflix'' = Some e \<Longrightarrow>
   fe_frequency e \<le> getmaximumfreq_from m wl"
proof (induction wl arbitrary: m)
  case Nil
  then show ?case by simp
next
  case (Cons j rest)
  show ?case
  proof (cases "i = j")
    case True
    with Cons.prems getmaximumfreq_from_ge[of "max m (fe_frequency e)" rest]
    show ?thesis by simp
  next
    case False
    with Cons.prems have "i \<in> set rest" by simp
    with Cons.IH Cons.prems(2) show ?thesis by (cases "frequency j ''netflix''") simp_all
  qed
qed

lemma getmaximumfreq_from_attained:
  "getmaximumfreq_from m wl = m \<or>
   (\<exists>i\<in>set wl. \<exists>e. frequency i ''netflix'' = Some e \<and>
      fe_frequency e = getmaximumfreq_from m wl)"
proof (induction wl arbitrary: m)
  case Nil
  show ?case by simp
next
  case (Cons j rest)
  show ?case
  proof (cases "frequency j ''netflix''")
    case None
    with Cons.IH[of m] show ?thesis by auto
  next
    case (Some e)
    with Cons.IH[of "max m (fe_frequency e)"] show ?thesis
      by (auto simp: max_def split: if_splits)
  qed
qed

lemma neko_item_netflix:
  "frequency (neko_item f s) ''netflix'' = Some \<lparr>fe_frequency = f, fe_stars = s\<rparr>"
  by (simp add: neko_item_def)

lemma getbins_none:
  "\<forall>p\<in>set ps. \<not> in_bin f p \<Longrightarrow> getbins f (map bin_of ps) = Inr (int (length ps) - 1)"
  by (simp add: getbins_def getbins_from_none)

lemma getbins_some:
  "j < length ps \<Longrightarrow> in_bin f (ps ! j) \<Longrightarrow> \<forall>k<j. \<not> in_bin f (ps ! k) \<Longrightarrow>
   getbins f (map bin_of ps) = Inr (int j)"
  using getbins_from_some[of j ps f 0] by (simp add: getbins_def)

lemma first_holding:
  "\<exists>p\<in>set ps. P p \<Longrightarrow> \<exists>j<length ps. P (ps ! j) \<and> (\<forall>k<j. \<not> P (ps ! k))"
proof (induction ps)
  case Nil
  then show ?case by simp
next
  case (Cons p ps)
  show ?case
  proof (cases "P p")
    case True
    then have "0 < length (p # ps) \<and> P ((p # ps) ! 0) \<and> (\<forall>k<0. \<not> P ((p # ps) ! k))" by simp
    then show ?thesis by (rule exI[where x=0])
  next
    case False
    with Cons.prems have "\<exists>q\<in>set ps. P q" by simp
    with Cons.IH obtain j where j: "j < length ps" "P (ps ! j)" "\<forall>k<j. \<not> P (ps ! k)" by blast
    have "\<not> P ((p # ps) ! k)" if "k < Suc j" for k
    proof (cases k)
      case 0
      with False show ?thesis by simp
    next
      case (Suc k')
      with that j(3) show ?thesis by simp
    qed
    with j have "Suc j < length (p # ps) \<and> P ((p # ps) ! Suc j) \<and> (\<forall>k<Suc j. \<not> P ((p # ps) ! k))"
      by simp
    then show ?thesis by (rule exI[where x="Suc j"])
  qed
qed

lemma getbins_cases:
  assumes "ps \<noteq> []"
  shows "\<exists>r. getbins f (map bin_of ps) = Inr r \<and> 0 \<le> r \<and> r < int (length ps)
         \<and> ((in_bin f (ps ! nat r) \<and> (\<forall>k<nat r. \<not> in_bin f (ps ! k)))
            \<or> (r = int (length ps) - 1 \<and> (\<forall>p\<in>set ps. \<not> in_bin f p)))"
proof (cases "\<exists>p\<in>set ps. in_bin f p")
  case True
  then obtain j where j: "j < length ps" "in_bin f (ps ! j)" "\<forall>k<j. \<not> in_bin f (ps ! k)"
    using first_holding[of ps "in_bin f"] by blast
  then have g: "getbins f (map bin_of ps) = Inr (int j)" by (rule getbins_some)
  have "getbins f (map bin_of ps) = Inr (int j) \<and> 0 \<le> int j \<and> int j < int (length ps)
         \<and> ((in_bin f (ps ! nat (int j)) \<and> (\<forall>k<nat (int j). \<not> in_bin f (ps ! k)))
            \<or> (int j = int (length ps) - 1 \<and> (\<forall>p\<in>set ps. \<not> in_bin f p)))"
    using g j by simp
  then show ?thesis by (rule exI[where x="int j"])
next
  case False
  then have n: "\<forall>p\<in>set ps. \<not> in_bin f p" by simp
  then have g: "getbins f (map bin_of ps) = Inr (int (length ps) - 1)" by (rule getbins_none)
  from assms have l: "0 < length ps" by simp
  have "getbins f (map bin_of ps) = Inr (int (length ps) - 1) \<and> 0 \<le> int (length ps) - 1
         \<and> int (length ps) - 1 < int (length ps)
         \<and> ((in_bin f (ps ! nat (int (length ps) - 1)) \<and> (\<forall>k<nat (int (length ps) - 1). \<not> in_bin f (ps ! k)))
            \<or> (int (length ps) - 1 = int (length ps) - 1 \<and> (\<forall>p\<in>set ps. \<not> in_bin f p)))"
    using g n l by simp
  then show ?thesis by (rule exI[where x="int (length ps) - 1"])
qed

lemma py_index_in_range:
  "0 \<le> r \<Longrightarrow> r < int (length xs) \<Longrightarrow> py_index xs r = Inr (xs ! nat r)"
  by (simp add: py_index_def)

lemma bin_of_0_500: "bin_of (0, 500) = ''0-500''"
  by code_simp

lemma bin_of_500_1000: "bin_of (500, 1000) = ''500-1000''"
  by code_simp

lemma generatebins_1200: "generatebins 1200 = [bin_of (0, 500), bin_of (500, 1000)]"
  by (simp add: generatebins_eq kth_bin_of upt_rec)

lemma getmaximumfreq_neko: "0 \<le> f \<Longrightarrow> getmaximumfreq [neko_item f s] = f"
  by (simp add: getmaximumfreq_def neko_item_netflix)

lemma append_words_None:
  "frequency i ''netflix'' = None \<Longrightarrow> append_words bins df (i # rest) = append_words bins df rest"
  by simp

lemma append_words_Some:
  "frequency i ''netflix'' = Some e \<Longrightarrow> getbins (fe_frequency e) bins = Inr k \<Longrightarrow>
   py_index bins k = Inr r \<Longrightarrow>
   append_words bins df (i # rest)
     = append_words bins (df @ [\<lparr>Range = r, Stars = Num (fe_stars e)\<rparr>]) rest"
  by simp

lemma append_words_rows:
  assumes "ps \<noteq> []"
  shows "\<exists>rows. append_words (map bin_of ps) df wl = Inr (df @ rows)
     \<and> map Stars rows = map (\<lambda>i. Num (fe_stars (the (frequency i ''netflix'')))) (filter has_netflix wl)
     \<and> (\<forall>r\<in>set rows. Range r \<in> set (map bin_of ps))"
proof (induction wl arbitrary: df)
  case Nil
  have "append_words (map bin_of ps) df [] = Inr (df @ [])
     \<and> map Stars [] = map (\<lambda>i. Num (fe_stars (the (frequency i ''netflix'')))) (filter has_netflix [])
     \<and> (\<forall>r\<in>set ([] :: row list). Range r \<in> set (map bin_of ps))" by simp
  then show ?case by (rule exI[where x="[]"])
next
  case (Cons i rest)
  show ?case
  proof (cases "frequency i ''netflix''")
    case None
    then have h: "\<not> has_netflix i" by (simp add: has_netflix_def)
    from Cons.IH[of df] obtain rows where
      r: "append_words (map bin_of ps) df rest = Inr (df @ rows)"
         "map Stars rows = map (\<lambda>i. Num (fe_stars (the (frequency i ''netflix'')))) (filter has_netflix rest)"
         "\<forall>r\<in>set rows. Range r \<in> set (map bin_of ps)" by blast
    have "append_words (map bin_of ps) df (i # rest) = Inr (df @ rows)
       \<and> map Stars rows = map (\<lambda>i. Num (fe_stars (the (frequency i ''netflix'')))) (filter has_netflix (i # rest))
       \<and> (\<forall>r\<in>set rows. Range r \<in> set (map bin_of ps))"
      using r h append_words_None[OF None] by simp
    then show ?thesis by (rule exI[where x=rows])
  next
    case (Some e)
    then have h: "has_netflix i" by (simp add: has_netflix_def)
    from getbins_cases[OF assms, of "fe_frequency e"] obtain k where
      k: "getbins (fe_frequency e) (map bin_of ps) = Inr k" "0 \<le> k" "k < int (length ps)" by blast
    from k(2,3) have pi: "py_index (map bin_of ps) k = Inr (bin_of (ps ! nat k))"
      by (simp add: py_index_in_range)
    let ?row = "\<lparr>Range = bin_of (ps ! nat k), Stars = Num (fe_stars e)\<rparr>"
    from k(2,3) have mem: "bin_of (ps ! nat k) \<in> set (map bin_of ps)" by simp
    from Cons.IH[of "df @ [?row]"] obtain rows where
      r: "append_words (map bin_of ps) (df @ [?row]) rest = Inr ((df @ [?row]) @ rows)"
         "map Stars rows = map (\<lambda>i. Num (fe_stars (the (frequency i ''netflix'')))) (filter has_netflix rest)"
         "\<forall>r\<in>set rows. Range r \<in> set (map bin_of ps)" by blast
    have "append_words (map bin_of ps) df (i # rest) = Inr (df @ (?row # rows))
       \<and> map Stars (?row # rows) = map (\<lambda>i. Num (fe_stars (the (frequency i ''netflix'')))) (filter has_netflix (i # rest))
       \<and> (\<forall>r\<in>set (?row # rows). Range r \<in> set (map bin_of ps))"
      using r h Some mem append_words_Some[OF Some k(1) pi, of df rest] by simp
    then show ?thesis by (rule exI[where x="?row # rows"])
  qed
qed

lemma histogram_total: "sum_list (map snd (histogram df)) = length df"
proof -
  let ?col = "map Range df"
  let ?ds = "rev (remdups (rev ?col))"
  have d: "distinct ?ds" by simp
  have s: "set ?ds = set ?col" by simp
  have "sum_list (map snd (histogram df)) = sum_list (map (count_list ?col) ?ds)"
    by (simp add: histogram_def Let_def comp_def)
  also have "\<dots> = sum (count_list ?col) (set ?ds)"
    using d by (rule sum_list_distinct_conv_sum_set)
  also have "\<dots> = sum (count_list ?col) (set ?col)" using s by simp
  also have "\<dots> = length ?col" by (rule sum_count_set) simp_all
  finally show ?thesis by simp
qed

lemma generatebins_nonempty: "500 \<le> m \<Longrightarrow> [0..<nat (m div 500)] \<noteq> []"
  by simp

lemma generatebins_bin_of:
  "generatebins m = map bin_of (map (\<lambda>k. (500 * k, 500 * k + 500)) [0..<nat (m div 500)])"
  by (simp add: generatebins_eq kth_bin_of comp_def)

lemma py_index_last:
  "xs \<noteq> [] \<Longrightarrow> py_index xs (int (length xs) - 1) = Inr (last xs)"
proof -
  assume ne: "xs \<noteq> []"
  then have l: "0 < length xs" by simp
  then have n: "nat (int (length xs) - 1) = length xs - 1" by simp
  from l have "py_index xs (int (length xs) - 1) = Inr (xs ! nat (int (length xs) - 1))"
    by (intro py_index_in_range) simp_all
  with n ne show ?thesis by (simp add: last_conv_nth)
qed

lemma gethistogram_neko_1200:
  "gethistogram [neko_item 1200 4]
     = Inr [seed_row, bin_row ''0-500'', bin_row ''500-1000'',
            \<lparr>Range = ''500-1000'', Stars = Num 4\<rparr>]"
proof -
  have n: "\<forall>p\<in>set [(0::nat, 500::nat), (500, 1000)]. \<not> in_bin 1200 p"
    by (simp add: in_bin_def)
  have g: "getbins 1200 [bin_of (0, 500), bin_of (500, 1000)] = Inr 1"
    using getbins_none[OF n] by simp
  have p: "py_index [bin_of (0, 500), bin_of (500, 1000)] 1 = Inr (bin_of (500, 1000))"
    by (simp add: py_index_def)
  have g': "getbins 1200 [''0-500'', ''500-1000''] = Inr 1"
    using g by (simp add: bin_of_0_500 bin_of_500_1000)
  have p': "py_index [''0-500'', ''500-1000''] 1 = Inr ''500-1000''"
    by (simp add: py_index_def)
  have b: "generatebins 1200 = [''0-500'', ''500-1000'']"
    by (simp add: generatebins_1200 bin_of_0_500 bin_of_500_1000)
  show ?thesis
    by (simp add: gethistogram_def Let_def getmaximumfreq_neko b neko_item_netflix g' p')
qed

lemma histogram_neko_1200:
  "histogram [seed_row, bin_row ''0-500'', bin_row ''500-1000'',
              \<lparr>Range = ''500-1000'', Stars = Num 4\<rparr>]
     = [(''0-500'', 2), (''500-1000'', 2)]"
  by code_simp

section \<open>Counting and sorting\<close>

lemma with_uses_mset:
  "mset (with_uses xs u) = mset (map (\<lambda>x. (x, int (count_list xs x))) u)"
  by (simp add: with_uses_def sorted_by_uses_def)

lemma with_uses_length: "length (with_uses xs u) = length u"
  by (simp add: with_uses_def sorted_by_uses_def)

lemma with_uses_sorted: "sorted (map (\<lambda>tup. - snd tup) (with_uses xs u))"
  by (simp add: with_uses_def sorted_by_uses_def)

lemma sorted_neg_iff: "sorted (map (\<lambda>t. - f t) ys) = sorted_wrt (\<lambda>a b. b \<le> a) (map f ys)"
  for f :: "'a \<Rightarrow> int"
  by (induction ys) auto

lemma with_uses_descending: "sorted_wrt (\<lambda>a b. b \<le> a) (map snd (with_uses xs u))"
  using with_uses_sorted[of xs u] by (simp add: sorted_neg_iff)

lemma sum_list_insort_key:
  "sum_list (map f (insort_key k x ys)) = f x + sum_list (map f ys)" for f :: "'a \<Rightarrow> int"
  by (induction ys) auto

lemma sum_list_sort_key:
  "sum_list (map f (sort_key k ys)) = sum_list (map f ys)" for f :: "'a \<Rightarrow> int"
  by (induction ys) (simp_all add: sum_list_insort_key)

lemma sum_list_int_count: "(\<Sum>x\<leftarrow>u. int (g x)) = int (sum_list (map g u))"
  by (induction u) simp_all

lemma sum_count_iterates:
  assumes "iterates u xs"
  shows "(\<Sum>x\<leftarrow>u. int (count_list xs x)) = int (length xs)"
proof -
  from assms have d: "distinct u" and s: "set u = set xs" by (simp_all add: iterates_def)
  have "sum_list (map (count_list xs) u) = sum (count_list xs) (set u)"
    using d by (rule sum_list_distinct_conv_sum_set)
  also have "\<dots> = length xs" using s by (simp add: sum_count_set)
  finally have "sum_list (map (count_list xs) u) = length xs" .
  then show ?thesis by (simp only: sum_list_int_count)
qed

lemma with_uses_sum:
  "iterates u xs \<Longrightarrow> sum_list (map snd (with_uses xs u)) = int (length xs)"
  by (simp add: with_uses_def sorted_by_uses_def sum_list_sort_key comp_def sum_count_iterates)

lemma used_once_length:
  "length (used_once_of (with_uses xs u)) = length (filter (\<lambda>x. count_list xs x = 1) u)"
proof -
  let ?f = "\<lambda>x. (x, int (count_list xs x))"
  let ?P = "\<lambda>tup :: 'a \<times> int. snd tup = 1"
  have "filter ?P (with_uses xs u) = sort_key (\<lambda>tup. - snd tup) (filter ?P (map ?f u))"
    by (simp only: with_uses_def sorted_by_uses_def filter_sort)
  then have "length (filter ?P (with_uses xs u)) = length (filter ?P (map ?f u))"
    by simp
  also have "\<dots> = length (filter (?P \<circ> ?f) u)"
    by (simp only: filter_map length_map)
  also have "?P \<circ> ?f = (\<lambda>x. count_list xs x = 1)"
    by (rule ext) simp
  finally show ?thesis by (simp add: used_once_of_def)
qed

lemma iterates_length: "iterates u xs \<Longrightarrow> length u = card (set xs)"
  by (metis iterates_def distinct_card)

lemma iterates_used_once:
  assumes "iterates u xs"
  shows "length (filter (\<lambda>x. count_list xs x = 1) u) = card {x \<in> set xs. count_list xs x = 1}"
proof -
  define P where "P = (\<lambda>x. count_list xs x = 1)"
  from assms have d: "distinct u" and s: "set u = set xs" by (simp_all add: iterates_def)
  from d have "distinct (filter P u)" by simp
  then have "card (set (filter P u)) = length (filter P u)" by (rule distinct_card)
  moreover have "set (filter P u) = {x \<in> set xs. P x}" using s by auto
  ultimately have "length (filter P u) = card {x \<in> set xs. P x}" by simp
  then show ?thesis by (simp only: P_def)
qed

lemma iterates_remdups: "iterates (remdups xs) xs"
  by (simp add: iterates_def)

lemma words_analyse_text:
  "words (analyse_text book text tokens uc uw gf)
     = map (\<lambda>(w, n). \<lparr>word = w, ocurrences = n, frequency = gf w\<rparr>) (with_uses tokens uw)"
  by (simp add: analyse_text_def Let_def)

lemma chars_analyse_text:
  "chars (analyse_text book text tokens uc uw gf)
     = map (\<lambda>(c, n). \<lparr>character = c, occurences = n\<rparr>) (with_uses text uc)"
  by (simp add: analyse_text_def Let_def)

lemma ocurrences_analyse_text:
  "map ocurrences (words (analyse_text book text tokens uc uw gf)) = map snd (with_uses tokens uw)"
  by (simp add: words_analyse_text comp_def case_prod_beta)

lemma occurences_analyse_text:
  "map occurences (chars (analyse_text book text tokens uc uw gf)) = map snd (with_uses text uc)"
  by (simp add: chars_analyse_text comp_def case_prod_beta)

lemma counts_analyse_text:
  "n_words (analyse_text book text tokens uc uw gf) = int (length tokens)"
  "n_words_unique (analyse_text book text tokens uc uw gf) = int (card (set tokens))"
  "n_words_used_once (analyse_text book text tokens uc uw gf)
     = int (length (filter (\<lambda>x. count_list tokens x = 1) uw))"
  "n_chars (analyse_text book text tokens uc uw gf) = int (length text)"
  "n_chars_unique (analyse_text book text tokens uc uw gf) = int (card (set text))"
  "n_chars_used_once (analyse_text book text tokens uc uw gf)
     = int (length (filter (\<lambda>x. count_list text x = 1) uc))"
  by (simp_all add: analyse_text_def Let_def used_once_length)

lemma once_items_words:
  "length (filter (\<lambda>i. ocurrences i = 1) (words (analyse_text book text tokens uc uw gf)))
     = length (filter (\<lambda>x. count_list tokens x = 1) uw)"
proof -
  have "length (filter (\<lambda>i. ocurrences i = 1) (words (analyse_text book text tokens uc uw gf)))
      = length (filter (\<lambda>n. n = 1) (map ocurrences (words (analyse_text book text tokens uc uw gf))))"
    by (simp add: filter_map comp_def)
  also have "\<dots> = length (filter (\<lambda>n. n = 1) (map snd (with_uses tokens uw)))"
    by (simp only: ocurrences_analyse_text)
  also have "\<dots> = length (used_once_of (with_uses tokens uw))"
    by (simp add: used_once_of_def filter_map comp_def)
  finally show ?thesis by (simp only: used_once_length)
qed

lemma once_items_chars:
  "length (filter (\<lambda>i. occurences i = 1) (chars (analyse_text book text tokens uc uw gf)))
     = length (filter (\<lambda>x. count_list text x = 1) uc)"
proof -
  have "length (filter (\<lambda>i. occurences i = 1) (chars (analyse_text book text tokens uc uw gf)))
      = length (filter (\<lambda>n. n = 1) (map occurences (chars (analyse_text book text tokens uc uw gf))))"
    by (simp add: filter_map comp_def)
  also have "\<dots> = length (filter (\<lambda>n. n = 1) (map snd (with_uses text uc)))"
    by (simp only: occurences_analyse_text)
  also have "\<dots> = length (used_once_of (with_uses text uc))"
    by (simp add: used_once_of_def filter_map comp_def)
  finally show ?thesis by (simp only: used_once_length)
qed

lemma used_once_le_unique: "card {x \<in> set xs. count_list xs x = 1} \<le> card (set xs)"
  by (rule card_mono) auto

lemma iterates_mset: "iterates u xs \<Longrightarrow> iterates u' xs \<Longrightarrow> mset u = mset u'"
  using set_eq_iff_mset_eq_distinct[of u u'] by (simp add: iterates_def)

lemma with_uses_mset_order:
  "iterates u xs \<Longrightarrow> iterates u' xs \<Longrightarrow> mset (with_uses xs u) = mset (with_uses xs u')"
  using iterates_mset[of u xs u'] by (simp add: with_uses_mset)

lemma sorted_same_mset:
  fixes ys :: "int list"
  assumes "sorted ys" and "sorted zs" and "mset ys = mset zs"
  shows "ys = zs"
proof -
  have "sort zs = ys" using assms(3) assms(1) by (rule properties_for_sort)
  moreover have "sort zs = zs" using assms(2) by (rule sorted_sort_id)
  ultimately show ?thesis by simp
qed

lemma with_uses_snd_order:
  assumes "iterates u xs" and "iterates u' xs"
  shows "map snd (with_uses xs u) = map snd (with_uses xs u')"
proof -
  let ?k = "\<lambda>tup :: 'a \<times> int. - snd tup"
  have m: "mset (map ?k (with_uses xs u)) = mset (map ?k (with_uses xs u'))"
    using with_uses_mset_order[OF assms] by simp
  have "map ?k (with_uses xs u) = map ?k (with_uses xs u')"
    using with_uses_sorted[of xs u] with_uses_sorted[of xs u'] m by (rule sorted_same_mset)
  then have "map uminus (map ?k (with_uses xs u)) = map uminus (map ?k (with_uses xs u'))"
    by (rule arg_cong)
  then show ?thesis by (simp add: comp_def)
qed

lemma with_uses_ties:
  "map fst (filter (\<lambda>tup. snd tup = n) (with_uses xs u))
     = filter (\<lambda>x. int (count_list xs x) = n) u"
proof -
  have "filter (\<lambda>tup. - snd tup = - n) (with_uses xs u)
      = filter (\<lambda>tup. - snd tup = - n) (map (\<lambda>x. (x, int (count_list xs x))) u)"
    unfolding with_uses_def sorted_by_uses_def by (rule sort_key_stable)
  then have "filter (\<lambda>tup. snd tup = n) (with_uses xs u)
      = filter (\<lambda>tup. snd tup = n) (map (\<lambda>x. (x, int (count_list xs x))) u)"
    by simp
  then show ?thesis by (simp add: filter_map comp_def)
qed

lemma words_ties:
  "map word (filter (\<lambda>i. ocurrences i = n) (words (analyse_text book text tokens uc uw gf)))
     = filter (\<lambda>w. int (count_list tokens w) = n) uw"
proof -
  have "map word (filter (\<lambda>i. ocurrences i = n) (words (analyse_text book text tokens uc uw gf)))
      = map fst (filter (\<lambda>tup. snd tup = n) (with_uses tokens uw))"
    by (simp add: words_analyse_text filter_map comp_def case_prod_beta)
  then show ?thesis by (simp only: with_uses_ties)
qed

lemma chars_ties:
  "map character (filter (\<lambda>i. occurences i = n) (chars (analyse_text book text tokens uc uw gf)))
     = filter (\<lambda>c. int (count_list text c) = n) uc"
proof -
  have "map character (filter (\<lambda>i. occurences i = n) (chars (analyse_text book text tokens uc uw gf)))
      = map fst (filter (\<lambda>tup. snd tup = n) (with_uses text uc))"
    by (simp add: chars_analyse_text filter_map comp_def case_prod_beta)
  then show ?thesis by (simp only: with_uses_ties)
qed

lemma chars_ab:
  "map character (chars (analyse_text neko_book [97, 98] [[97], [98]] [97, 98] [[97], [98]] no_frequency))
     = [97, 98]"
  by (simp add: chars_analyse_text with_uses_def sorted_by_uses_def)

lemma chars_ba:
  "map character (chars (analyse_text neko_book [97, 98] [[97], [98]] [98, 97] [[97], [98]] no_frequency))
     = [98, 97]"
  by (simp add: chars_analyse_text with_uses_def sorted_by_uses_def)

lemma neko_lengths: "length neko_tokens = 8" "length neko_text = 9"
  by (simp_all add: neko_tokens_def neko_text_def)

lemma neko_unique:
  "remdups neko_tokens = [[12364], [12434], [35211, 12383], [29483], [12290]]"
  "remdups neko_text = [12364, 12434, 35211, 12383, 29483, 12290]"
  by (simp_all add: neko_tokens_def neko_text_def)

lemma neko_cards: "card (set neko_tokens) = 5" "card (set neko_text) = 6"
  using iterates_length[OF iterates_remdups, of neko_tokens]
    iterates_length[OF iterates_remdups, of neko_text]
  by (simp_all add: neko_unique)

lemma neko_once:
  "filter (\<lambda>x. count_list neko_tokens x = 1) (remdups neko_tokens)
     = [[12364], [12434], [35211, 12383]]"
  "filter (\<lambda>x. count_list neko_text x = 1) (remdups neko_text)
     = [12364, 12434, 35211, 12383]"
  by (simp_all add: neko_unique) (simp_all add: neko_tokens_def neko_text_def)

lemma neko_with_uses:
  "with_uses neko_tokens (remdups neko_tokens)
     = [([29483], 3), ([12290], 2), ([12364], 1), ([12434], 1), ([35211, 12383], 1)]"
  "with_uses neko_text (remdups neko_text)
     = [(29483, 3), (12290, 2), (12364, 1), (12434, 1), (35211, 1), (12383, 1)]"
  by (simp_all add: neko_unique with_uses_def sorted_by_uses_def)
     (simp_all add: neko_tokens_def neko_text_def)

lemma append_words_no_entry:
  "(\<And>i. i \<in> set wl \<Longrightarrow> frequency i ''netflix'' = None) \<Longrightarrow> append_words bins df wl = Inr df"
  by (induction wl) simp_all

lemma gethistogram_no_entry:
  assumes "\<And>w. gf w ''netflix'' = None"
  shows "\<exists>df. gethistogram (words (analyse_text book text tokens uc uw gf)) = Inr df"
proof -
  have "\<And>i. i \<in> set (words (analyse_text book text tokens uc uw gf))
          \<Longrightarrow> frequency i ''netflix'' = None"
    using assms by (auto simp: words_analyse_text)
  then show ?thesis by (simp add: gethistogram_def Let_def append_words_no_entry)
qed

lemma last_split_neko: "last (split_on (CHR ''.'') ''neko.txt'') = ''txt''"
  by simp

lemma last_split_pdf: "last (split_on (CHR ''.'') ''book.pdf'') = ''pdf''"
  by simp

lemma neko_title: "replace (last (split_on (CHR ''/'') ''neko.txt'')) ''.txt'' [] = ''neko''"
  by (simp add: replace_def replace_from.simps)

lemma sha256sum_neko: "sha256sum (neko_world neko_files) filename = Inr ''00''"
  by (simp add: sha256sum_def neko_world_def neko_files_def)

lemma process_file_neko:
  "process_file (neko_world neko_files) ''neko.txt'' = Inr neko_book"
proof -
  have "process_file (neko_world neko_files) ''neko.txt''
      = Inr (process_txt ''neko.txt'' ''static/books/00'' ''00'')"
    unfolding process_file_def Let_def last_split_neko sha256sum_neko by simp
  moreover have "process_txt ''neko.txt'' ''static/books/00'' ''00'' = neko_book"
    unfolding process_txt_def Let_def last_split_neko
    using neko_title by (simp add: neko_book_def del: split_on.simps)
  ultimately show ?thesis by simp
qed

lemma analyse_ebook_neko:
  "analyse_ebook (neko_world neko_files) ''neko.txt''
     = Inr (analyse_text neko_book neko_text neko_tokens (remdups neko_text)
              (remdups neko_tokens) no_frequency)"
proof -
  obtain df where "gethistogram (words (analyse_text neko_book neko_text neko_tokens
      (remdups neko_text) (remdups neko_tokens) no_frequency)) = Inr df"
    using gethistogram_no_entry[of no_frequency neko_book neko_text neko_tokens
        "remdups neko_text" "remdups neko_tokens"]
    by (auto simp: no_frequency_def)
  moreover have "read_text (neko_world neko_files) p = Inr neko_text"
    "parse_sentence (neko_world neko_files) t = neko_tokens"
    "iter_chars (neko_world neko_files) = remdups"
    "iter_words (neko_world neko_files) = remdups"
    "get_frequency (neko_world neko_files) = no_frequency" for p t
    by (simp_all add: neko_world_def)
  ultimately show ?thesis
    by (simp add: analyse_ebook_def process_file_neko Let_def)
qed

lemma iterates_rev: "iterates (rev (remdups xs)) xs"
  by (simp add: iterates_def)

section \<open>Claims about the histogram\<close>

text \<open>
  Claim C1. When the largest \<open>netflix\<close> frequency is below the bin width 500, no bin
  is generated and the histogram should come out empty without an error, also when
  a word has a \<open>netflix\<close> entry. The program does not do this: for the one word
  with the frequency 100, the maximum is 100, \<open>generatebins\<close> gives no bin,
  \<open>getbins\<close> returns \<open>-1\<close>, and indexing the empty list of bins raises IndexError.
\<close>

theorem gethistogram_below_width_raises:
  "getmaximumfreq [neko_item 100 4] = 100
   \<and> generatebins (getmaximumfreq [neko_item 100 4]) = []
   \<and> getbins 100 [] = Inr (- 1)
   \<and> gethistogram [neko_item 100 4] = Inl IndexError"
  by (simp add: getmaximumfreq_def neko_item_netflix generatebins_eq getbins_def
      gethistogram_def py_index_def)

text \<open>
  Claim C10, for bins with natural-number edges. For a non-empty list of bins
  \<open>a-b\<close> with natural numbers \<open>a\<close> and \<open>b\<close>, and any integer frequency,
  \<open>getbins\<close> raises nothing and returns an index between 0 and \<open>len(bins) - 1\<close>:
  the index of the first bin whose half-open range holds the frequency, or
  \<open>len(bins) - 1\<close> when no bin holds it. Indexing the list of bins with it succeeds.
\<close>

theorem getbins_returns_valid_index:
  assumes "ps \<noteq> []"
  shows "\<exists>r. getbins f (map bin_of ps) = Inr r \<and> 0 \<le> r \<and> r \<le> int (length ps) - 1
         \<and> py_index (map bin_of ps) r = Inr (bin_of (ps ! nat r))
         \<and> ((in_bin f (ps ! nat r) \<and> (\<forall>k<nat r. \<not> in_bin f (ps ! k)))
            \<or> (r = int (length ps) - 1 \<and> (\<forall>p\<in>set ps. \<not> in_bin f p)))"
proof -
  from getbins_cases[OF assms, of f] obtain r where
    r: "getbins f (map bin_of ps) = Inr r" "0 \<le> r" "r < int (length ps)"
       "(in_bin f (ps ! nat r) \<and> (\<forall>k<nat r. \<not> in_bin f (ps ! k)))
        \<or> (r = int (length ps) - 1 \<and> (\<forall>p\<in>set ps. \<not> in_bin f p))"
    by blast
  from r(2,3) have "py_index (map bin_of ps) r = Inr (bin_of (ps ! nat r))"
    by (simp add: py_index_in_range)
  with r have "getbins f (map bin_of ps) = Inr r \<and> 0 \<le> r \<and> r \<le> int (length ps) - 1
         \<and> py_index (map bin_of ps) r = Inr (bin_of (ps ! nat r))
         \<and> ((in_bin f (ps ! nat r) \<and> (\<forall>k<nat r. \<not> in_bin f (ps ! k)))
            \<or> (r = int (length ps) - 1 \<and> (\<forall>p\<in>set ps. \<not> in_bin f p)))"
    by simp
  then show ?thesis by (rule exI[where x=r])
qed

theorem getbins_returns_valid_index_witness:
  "[(0::nat, 500::nat), (500, 1000)] \<noteq> []
   \<and> (\<exists>r. getbins 700 (map bin_of [(0, 500), (500, 1000)]) = Inr r \<and> 0 \<le> r
         \<and> r \<le> int (length [(0::nat, 500::nat), (500, 1000)]) - 1
         \<and> py_index (map bin_of [(0, 500), (500, 1000)]) r
             = Inr (bin_of ([(0, 500), (500, 1000)] ! nat r))
         \<and> ((in_bin 700 ([(0, 500), (500, 1000)] ! nat r)
              \<and> (\<forall>k<nat r. \<not> in_bin 700 ([(0, 500), (500, 1000)] ! k)))
            \<or> (r = int (length [(0::nat, 500::nat), (500, 1000)]) - 1
                \<and> (\<forall>p\<in>set [(0, 500), (500, 1000)]. \<not> in_bin 700 p))))"
proof -
  have h: "[(0::nat, 500::nat), (500, 1000)] \<noteq> []" by simp
  from getbins_returns_valid_index[OF h, of 700] h show ?thesis by (rule conjI[rotated])
qed

text \<open>
  Claim C10 as stated, for every integer \<open>a < b\<close>, fails: the bin from \<open>-5\<close> to
  \<open>3\<close> is the label \<open>-5-3\<close>, which \<open>split\<close> cuts into an empty string,
  \<open>5\<close> and \<open>3\<close>, and \<open>int\<close> of the empty string raises ValueError.
\<close>

theorem getbins_negative_edge_raises:
  "(- 5 :: int) < 3 \<and> bin_label (- 5) 3 = ''-5-3''
   \<and> split_on (CHR ''-'') ''-5-3'' = ['''', ''5'', ''3'']
   \<and> getbins 0 [bin_label (- 5) 3] = Inl (invalid_literal '''')"
  by code_simp

text \<open>
  Claim C8. For a non-empty list of bins and a word whose \<open>netflix\<close> frequency is
  at or above the upper edge of every bin, \<open>getbins\<close> returns the index of the last
  bin, indexing the bins with it succeeds, and the row that \<open>gethistogram\<close> appends
  for the word has the last bin as its \<open>Range\<close>. The witness is the scenario of the
  frequency 1200: the bins are \<open>0-500\<close> and \<open>500-1000\<close>, and the word is put
  into \<open>500-1000\<close>.
\<close>

theorem catch_all_last_bin:
  assumes "ps \<noteq> []" and "frequency i ''netflix'' = Some e"
    and "\<forall>p\<in>set ps. int (snd p) \<le> fe_frequency e"
  shows "getbins (fe_frequency e) (map bin_of ps) = Inr (int (length ps) - 1)
       \<and> py_index (map bin_of ps) (int (length ps) - 1) = Inr (last (map bin_of ps))
       \<and> append_words (map bin_of ps) df (i # rest)
           = append_words (map bin_of ps)
               (df @ [\<lparr>Range = last (map bin_of ps), Stars = Num (fe_stars e)\<rparr>]) rest"
proof -
  from assms(3) have n: "\<forall>p\<in>set ps. \<not> in_bin (fe_frequency e) p"
    by (auto simp: in_bin_def)
  then have g: "getbins (fe_frequency e) (map bin_of ps) = Inr (int (length ps) - 1)"
    by (rule getbins_none)
  from assms(1) have p: "py_index (map bin_of ps) (int (length ps) - 1) = Inr (last (map bin_of ps))"
    using py_index_last[of "map bin_of ps"] by simp
  from append_words_Some[OF assms(2) g p] g p show ?thesis by simp
qed

theorem catch_all_last_bin_witness:
  "[(0::nat, 500::nat), (500, 1000)] \<noteq> []
   \<and> frequency (neko_item 1200 4) ''netflix'' = Some \<lparr>fe_frequency = 1200, fe_stars = 4\<rparr>
   \<and> int (snd (0::nat, 500::nat)) \<le> 1200 \<and> int (snd (500::nat, 1000::nat)) \<le> 1200
   \<and> generatebins (getmaximumfreq [neko_item 1200 4]) = map bin_of [(0, 500), (500, 1000)]
   \<and> map bin_of [(0, 500), (500, 1000)] = [''0-500'', ''500-1000'']
   \<and> getbins 1200 (map bin_of [(0, 500), (500, 1000)]) = Inr 1
   \<and> append_words (map bin_of [(0, 500), (500, 1000)]) [] [neko_item 1200 4]
       = Inr [\<lparr>Range = ''500-1000'', Stars = Num 4\<rparr>]
   \<and> gethistogram [neko_item 1200 4]
       = Inr [seed_row, bin_row ''0-500'', bin_row ''500-1000'',
              \<lparr>Range = ''500-1000'', Stars = Num 4\<rparr>]"
proof -
  have a: "[(0::nat, 500::nat), (500, 1000)] \<noteq> []" by simp
  have b: "frequency (neko_item 1200 4) ''netflix'' = Some \<lparr>fe_frequency = 1200, fe_stars = 4\<rparr>"
    by (rule neko_item_netflix)
  have c: "\<forall>p\<in>set [(0::nat, 500::nat), (500, 1000)].
             int (snd p) \<le> fe_frequency \<lparr>fe_frequency = 1200, fe_stars = 4\<rparr>" by simp
  have d: "generatebins (getmaximumfreq [neko_item 1200 4]) = map bin_of [(0, 500), (500, 1000)]"
    by (simp add: getmaximumfreq_neko generatebins_1200)
  from catch_all_last_bin[OF a b c, of "[]" "[]"] a b c d gethistogram_neko_1200
  show ?thesis by (simp add: bin_of_0_500 bin_of_500_1000)
qed

text \<open>
  Claim C3, for a maximum of at least 500. The bins are the \<open>k\<close>-th bins of width
  500 for \<open>k\<close> from 0 up to, and without, the maximum divided by 500: each starts at
  the upper edge of the one before, the first at 0. There is at least one bin; the
  upper edge of the last is at most the maximum, and the maximum is less than 500
  above it. The maximum is the largest \<open>netflix\<close> frequency among the words.
\<close>

theorem generatebins_steps:
  assumes "500 \<le> getmaximumfreq wl"
  shows "generatebins (getmaximumfreq wl) = map kth_bin [0..<nat (getmaximumfreq wl div 500)]
     \<and> 0 < nat (getmaximumfreq wl div 500)
     \<and> 500 * int (nat (getmaximumfreq wl div 500)) \<le> getmaximumfreq wl
     \<and> getmaximumfreq wl < 500 * int (nat (getmaximumfreq wl div 500)) + 500
     \<and> (\<forall>i\<in>set wl. \<forall>e. frequency i ''netflix'' = Some e \<longrightarrow> fe_frequency e \<le> getmaximumfreq wl)
     \<and> (\<exists>i\<in>set wl. \<exists>e. frequency i ''netflix'' = Some e \<and> fe_frequency e = getmaximumfreq wl)"
proof -
  let ?m = "getmaximumfreq wl"
  have a: "generatebins ?m = map kth_bin [0..<nat (?m div 500)]" by (rule generatebins_eq)
  from assms have b: "0 < nat (?m div 500)" by simp
  from assms have nn: "int (nat (?m div 500)) = ?m div 500" by simp
  have "500 * (?m div 500) \<le> ?m" by presburger
  with nn have c: "500 * int (nat (?m div 500)) \<le> ?m" by simp
  have "?m < 500 * (?m div 500) + 500" by presburger
  with nn have d: "?m < 500 * int (nat (?m div 500)) + 500" by simp
  have e: "\<forall>i\<in>set wl. \<forall>e. frequency i ''netflix'' = Some e \<longrightarrow> fe_frequency e \<le> ?m"
    using getmaximumfreq_from_upper[of _ wl _ 0] by (simp add: getmaximumfreq_def)
  from assms have "getmaximumfreq_from 0 wl \<noteq> 0" by (simp add: getmaximumfreq_def)
  with getmaximumfreq_from_attained[of 0 wl]
  have f: "\<exists>i\<in>set wl. \<exists>e. frequency i ''netflix'' = Some e \<and> fe_frequency e = ?m"
    by (simp add: getmaximumfreq_def)
  from a b c d e f show ?thesis by blast
qed

theorem generatebins_steps_witness:
  "500 \<le> getmaximumfreq [neko_item 1200 4]
   \<and> generatebins (getmaximumfreq [neko_item 1200 4])
       = map kth_bin [0..<nat (getmaximumfreq [neko_item 1200 4] div 500)]
   \<and> 0 < nat (getmaximumfreq [neko_item 1200 4] div 500)
   \<and> 500 * int (nat (getmaximumfreq [neko_item 1200 4] div 500)) \<le> getmaximumfreq [neko_item 1200 4]
   \<and> getmaximumfreq [neko_item 1200 4]
       < 500 * int (nat (getmaximumfreq [neko_item 1200 4] div 500)) + 500"
proof -
  have h: "500 \<le> getmaximumfreq [neko_item 1200 4]" by (simp add: getmaximumfreq_neko)
  from generatebins_steps[OF h] h show ?thesis by blast
qed

text \<open>
  Claim C3 as stated says that the bins reach at least the largest frequency. They do
  not: for the frequency 1200 the bins are \<open>0-500\<close> and \<open>500-1000\<close>, neither
  holds 1200, and the last upper edge, 1000, is below it.
\<close>

theorem generatebins_stops_below_maximum:
  "getmaximumfreq [neko_item 1200 4] = 1200
   \<and> generatebins (getmaximumfreq [neko_item 1200 4]) = [bin_of (0, 500), bin_of (500, 1000)]
   \<and> bin_of (0, 500) = ''0-500'' \<and> bin_of (500, 1000) = ''500-1000''
   \<and> \<not> in_bin (getmaximumfreq [neko_item 1200 4]) (0, 500)
   \<and> \<not> in_bin (getmaximumfreq [neko_item 1200 4]) (500, 1000)
   \<and> int (snd (500 :: nat, 1000 :: nat)) < getmaximumfreq [neko_item 1200 4]"
  by (simp add: getmaximumfreq_neko generatebins_1200 bin_of_0_500 bin_of_500_1000 in_bin_def)

text \<open>
  Claim C2, for a maximum of at least 500. \<open>gethistogram\<close> raises nothing. Its data
  frame is the seed row, then one row for each bin, then exactly one row for each word
  that has a \<open>netflix\<close> entry, in the order of the words, with the stars of the entry
  and one of the generated bins as \<open>Range\<close>. The bars of the histogram add up to
  one, plus the number of bins, plus the number of words with a \<open>netflix\<close> entry.
\<close>

theorem gethistogram_rows:
  assumes "500 \<le> getmaximumfreq wl"
  shows "\<exists>rows. gethistogram wl
           = Inr (seed_row # map bin_row (generatebins (getmaximumfreq wl)) @ rows)
     \<and> map Stars rows
         = map (\<lambda>i. Num (fe_stars (the (frequency i ''netflix'')))) (filter has_netflix wl)
     \<and> (\<forall>r\<in>set rows. Range r \<in> set (generatebins (getmaximumfreq wl)))
     \<and> sum_list (map snd (histogram
           (seed_row # map bin_row (generatebins (getmaximumfreq wl)) @ rows)))
         = 1 + length (generatebins (getmaximumfreq wl)) + length (filter has_netflix wl)"
proof -
  let ?m = "getmaximumfreq wl"
  let ?ps = "map (\<lambda>k. (500 * k, 500 * k + 500)) [0..<nat (?m div 500)]"
  let ?bins = "generatebins ?m"
  let ?df = "seed_row # map bin_row ?bins"
  have bins: "?bins = map bin_of ?ps" by (rule generatebins_bin_of)
  from assms have ne: "?ps \<noteq> []" by simp
  from append_words_rows[OF ne, of ?df wl] obtain rows where
    r: "append_words (map bin_of ?ps) ?df wl = Inr (?df @ rows)"
       "map Stars rows
          = map (\<lambda>i. Num (fe_stars (the (frequency i ''netflix'')))) (filter has_netflix wl)"
       "\<forall>r\<in>set rows. Range r \<in> set (map bin_of ?ps)" by blast
  from r(1) bins have g: "gethistogram wl = Inr (seed_row # map bin_row ?bins @ rows)"
    by (simp add: gethistogram_def Let_def)
  from r(2) have "length (map Stars rows)
      = length (map (\<lambda>i. Num (fe_stars (the (frequency i ''netflix'')))) (filter has_netflix wl))"
    by (rule arg_cong)
  then have len: "length rows = length (filter has_netflix wl)" by simp
  have tot: "sum_list (map snd (histogram (seed_row # map bin_row ?bins @ rows)))
      = 1 + length ?bins + length (filter has_netflix wl)"
    using len by (simp add: histogram_total)
  from r(3) bins have mem: "\<forall>r\<in>set rows. Range r \<in> set ?bins" by simp
  from g r(2) mem tot show ?thesis by blast
qed

theorem gethistogram_rows_witness:
  "500 \<le> getmaximumfreq [neko_item 1200 4]
   \<and> (\<exists>rows. gethistogram [neko_item 1200 4]
           = Inr (seed_row # map bin_row (generatebins (getmaximumfreq [neko_item 1200 4])) @ rows)
     \<and> map Stars rows
         = map (\<lambda>i. Num (fe_stars (the (frequency i ''netflix''))))
             (filter has_netflix [neko_item 1200 4])
     \<and> (\<forall>r\<in>set rows. Range r \<in> set (generatebins (getmaximumfreq [neko_item 1200 4])))
     \<and> sum_list (map snd (histogram
           (seed_row # map bin_row (generatebins (getmaximumfreq [neko_item 1200 4])) @ rows)))
         = 1 + length (generatebins (getmaximumfreq [neko_item 1200 4]))
           + length (filter has_netflix [neko_item 1200 4]))"
proof -
  have h: "500 \<le> getmaximumfreq [neko_item 1200 4]" by (simp add: getmaximumfreq_neko)
  from gethistogram_rows[OF h] h show ?thesis by (rule conjI[rotated])
qed

text \<open>
  Claim C2 as stated says that the counts add up to the number of words with an entry.
  For the single word of frequency 1200 the histogram counts 2 for \<open>0-500\<close> and 2
  for \<open>500-1000\<close>, four in all, with one word.
\<close>

theorem histogram_counts_seed_rows:
  "gethistogram [neko_item 1200 4]
     = Inr [seed_row, bin_row ''0-500'', bin_row ''500-1000'',
            \<lparr>Range = ''500-1000'', Stars = Num 4\<rparr>]
   \<and> histogram [seed_row, bin_row ''0-500'', bin_row ''500-1000'',
                \<lparr>Range = ''500-1000'', Stars = Num 4\<rparr>]
       = [(''0-500'', 2), (''500-1000'', 2)]
   \<and> length (filter has_netflix [neko_item 1200 4]) = 1
   \<and> sum_list (map snd [(''0-500'', 2 :: nat), (''500-1000'', 2)])
       \<noteq> length (filter has_netflix [neko_item 1200 4])"
  by (simp add: gethistogram_neko_1200 histogram_neko_1200 has_netflix_def neko_item_netflix)

section \<open>Claims about the analysis\<close>

text \<open>
  Claim C4. For every text and every sequence of tokens, with any order in which the two
  sets are iterated: \<open>n_words\<close> is the number of tokens, \<open>n_words_unique\<close> the number
  of distinct words (and the length of \<open>words\<close>), \<open>n_words_used_once\<close> the number of
  distinct words that occur exactly once (and the number of items of \<open>words\<close> whose
  \<open>ocurrences\<close> is 1), \<open>n_words_used_once \<le> n_words_unique \<le> n_words\<close>, and the same
  holds for the characters.
\<close>

theorem analyse_text_counts:
  assumes "iterates uc text" and "iterates uw tokens"
    and "bd = analyse_text book text tokens uc uw gf"
  shows "n_words bd = int (length tokens)
     \<and> n_words_unique bd = int (card (set tokens))
     \<and> n_words_unique bd = int (length (words bd))
     \<and> n_words_used_once bd = int (card {w \<in> set tokens. count_list tokens w = 1})
     \<and> n_words_used_once bd = int (length (filter (\<lambda>i. ocurrences i = 1) (words bd)))
     \<and> n_words_used_once bd \<le> n_words_unique bd \<and> n_words_unique bd \<le> n_words bd
     \<and> n_chars bd = int (length text)
     \<and> n_chars_unique bd = int (card (set text))
     \<and> n_chars_unique bd = int (length (chars bd))
     \<and> n_chars_used_once bd = int (card {c \<in> set text. count_list text c = 1})
     \<and> n_chars_used_once bd = int (length (filter (\<lambda>i. occurences i = 1) (chars bd)))
     \<and> n_chars_used_once bd \<le> n_chars_unique bd \<and> n_chars_unique bd \<le> n_chars bd"
proof -
  note c = counts_analyse_text[of book "text" tokens uc uw gf]
  have w1: "n_words bd = int (length tokens)" using assms(3) c(1) by simp
  have w2: "n_words_unique bd = int (card (set tokens))" using assms(3) c(2) by simp
  have w3: "n_words_unique bd = int (length (words bd))"
    using w2 assms(3) iterates_length[OF assms(2)]
    by (simp add: words_analyse_text with_uses_length)
  have w4: "n_words_used_once bd = int (card {w \<in> set tokens. count_list tokens w = 1})"
    using assms(3) c(3) iterates_used_once[OF assms(2)] by simp
  have w5: "n_words_used_once bd = int (length (filter (\<lambda>i. ocurrences i = 1) (words bd)))"
    using assms(3) c(3) once_items_words[of book "text" tokens uc uw gf] by simp
  have w6: "n_words_used_once bd \<le> n_words_unique bd"
    using w2 w4 used_once_le_unique[of tokens] by simp
  have w7: "n_words_unique bd \<le> n_words bd" using w1 w2 card_length[of tokens] by simp
  have c1: "n_chars bd = int (length text)" using assms(3) c(4) by simp
  have c2: "n_chars_unique bd = int (card (set text))" using assms(3) c(5) by simp
  have c3: "n_chars_unique bd = int (length (chars bd))"
    using c2 assms(3) iterates_length[OF assms(1)]
    by (simp add: chars_analyse_text with_uses_length)
  have c4: "n_chars_used_once bd = int (card {c \<in> set text. count_list text c = 1})"
    using assms(3) c(6) iterates_used_once[OF assms(1)] by simp
  have c5: "n_chars_used_once bd = int (length (filter (\<lambda>i. occurences i = 1) (chars bd)))"
    using assms(3) c(6) once_items_chars[of book "text" tokens uc uw gf] by simp
  have c6: "n_chars_used_once bd \<le> n_chars_unique bd"
    using c2 c4 used_once_le_unique[of "text"] by simp
  have c7: "n_chars_unique bd \<le> n_chars bd" using c1 c2 card_length[of "text"] by simp
  from w1 w2 w3 w4 w5 w6 w7 c1 c2 c3 c4 c5 c6 c7 show ?thesis by blast
qed

text \<open>
  The eight tokens of the sample text give \<open>n_words = 8\<close>, \<open>n_words_unique = 5\<close> and
  \<open>n_words_used_once = 3\<close>; its nine characters give 9, 6 and 4. This is the dictionary
  that \<open>analyse_ebook\<close> returns for the file \<open>neko.txt\<close>.
\<close>

theorem analyse_text_counts_witness:
  "iterates (remdups neko_text) neko_text \<and> iterates (remdups neko_tokens) neko_tokens
   \<and> analyse_ebook (neko_world neko_files) ''neko.txt''
       = Inr (analyse_text neko_book neko_text neko_tokens (remdups neko_text)
                (remdups neko_tokens) no_frequency)
   \<and> n_words (analyse_text neko_book neko_text neko_tokens (remdups neko_text)
                (remdups neko_tokens) no_frequency) = 8
   \<and> n_words_unique (analyse_text neko_book neko_text neko_tokens (remdups neko_text)
                (remdups neko_tokens) no_frequency) = 5
   \<and> n_words_used_once (analyse_text neko_book neko_text neko_tokens (remdups neko_text)
                (remdups neko_tokens) no_frequency) = 3
   \<and> n_chars (analyse_text neko_book neko_text neko_tokens (remdups neko_text)
                (remdups neko_tokens) no_frequency) = 9
   \<and> n_chars_unique (analyse_text neko_book neko_text neko_tokens (remdups neko_text)
                (remdups neko_tokens) no_frequency) = 6
   \<and> n_chars_used_once (analyse_text neko_book neko_text neko_tokens (remdups neko_text)
                (remdups neko_tokens) no_frequency) = 4"
proof -
  have o: "card {w \<in> set neko_tokens. count_list neko_tokens w = 1} = 3"
    "card {c \<in> set neko_text. count_list neko_text c = 1} = 4"
    unfolding iterates_used_once[OF iterates_remdups, symmetric] neko_once by simp_all
  show ?thesis
    using analyse_text_counts[of "remdups neko_text" neko_text "remdups neko_tokens"
        neko_tokens _ neko_book no_frequency, OF iterates_remdups iterates_remdups refl] o
    by (simp add: iterates_remdups analyse_ebook_neko neko_lengths neko_cards)
qed

text \<open>
  Claim C5. For every text, the \<open>occurences\<close> of the items of \<open>chars\<close> add up to the
  number of code points of the text, and the \<open>ocurrences\<close> of the items of \<open>words\<close>
  add up to the number of tokens.
\<close>

theorem occurrence_sums:
  assumes "iterates uc text" and "iterates uw tokens"
    and "bd = analyse_text book text tokens uc uw gf"
  shows "sum_list (map occurences (chars bd)) = int (length text)
     \<and> sum_list (map ocurrences (words bd)) = int (length tokens)
     \<and> n_chars bd = int (length text) \<and> n_words bd = int (length tokens)"
  using assms
  by (simp add: occurences_analyse_text ocurrences_analyse_text with_uses_sum counts_analyse_text)

text \<open>
  For the sample text the counts are 3, 2, 1, 1, 1, 1 for the characters, 9 in all, and
  3, 2, 1, 1, 1 for the words, 8 in all.
\<close>

theorem occurrence_sums_witness:
  "iterates (remdups neko_text) neko_text \<and> iterates (remdups neko_tokens) neko_tokens
   \<and> map occurences (chars (analyse_text neko_book neko_text neko_tokens (remdups neko_text)
                (remdups neko_tokens) no_frequency)) = [3, 2, 1, 1, 1, 1]
   \<and> sum_list (map occurences (chars (analyse_text neko_book neko_text neko_tokens
                (remdups neko_text) (remdups neko_tokens) no_frequency))) = 9
   \<and> map ocurrences (words (analyse_text neko_book neko_text neko_tokens (remdups neko_text)
                (remdups neko_tokens) no_frequency)) = [3, 2, 1, 1, 1]
   \<and> sum_list (map ocurrences (words (analyse_text neko_book neko_text neko_tokens
                (remdups neko_text) (remdups neko_tokens) no_frequency))) = 8"
  using occurrence_sums[of "remdups neko_text" neko_text "remdups neko_tokens"
      neko_tokens _ neko_book no_frequency, OF iterates_remdups iterates_remdups refl]
  by (simp add: iterates_remdups neko_lengths occurences_analyse_text ocurrences_analyse_text
      neko_with_uses)

text \<open>
  Claim C6. For every text and every sequence of tokens, the counts along \<open>words\<close> and
  along \<open>chars\<close> never increase, over the whole of each sequence.
\<close>

theorem sorted_by_occurrences:
  "sorted_wrt (\<lambda>a b. b \<le> a) (map ocurrences (words (analyse_text book text tokens uc uw gf)))
   \<and> sorted_wrt (\<lambda>a b. b \<le> a) (map occurences (chars (analyse_text book text tokens uc uw gf)))"
  by (simp add: occurences_analyse_text ocurrences_analyse_text with_uses_descending)

text \<open>
  Claim C7, amended. Two runs on the same text and tokens may iterate the two sets in
  different orders. Their results agree in the title, authors, image and hash, in the
  six counts, in the sequence of occurrence counts of \<open>words\<close> and of \<open>chars\<close>, and
  in the items of \<open>words\<close> and \<open>chars\<close> up to their order. Among the items with one
  and the same count \<open>n\<close>, the order is that in which the run iterated the set.
\<close>

theorem iteration_order_only_reorders:
  assumes "iterates uc text" and "iterates uc' text"
    and "iterates uw tokens" and "iterates uw' tokens"
    and "bd = analyse_text book text tokens uc uw gf"
    and "bd' = analyse_text book text tokens uc' uw' gf"
  shows "title bd = title bd' \<and> authors bd = authors bd' \<and> image bd = image bd'
     \<and> file_hash bd = file_hash bd'
     \<and> n_words bd = n_words bd' \<and> n_words_unique bd = n_words_unique bd'
     \<and> n_words_used_once bd = n_words_used_once bd'
     \<and> n_chars bd = n_chars bd' \<and> n_chars_unique bd = n_chars_unique bd'
     \<and> n_chars_used_once bd = n_chars_used_once bd'
     \<and> mset (words bd) = mset (words bd') \<and> mset (chars bd) = mset (chars bd')
     \<and> map ocurrences (words bd) = map ocurrences (words bd')
     \<and> map occurences (chars bd) = map occurences (chars bd')
     \<and> map word (filter (\<lambda>i. ocurrences i = n) (words bd))
         = filter (\<lambda>w. int (count_list tokens w) = n) uw
     \<and> map character (filter (\<lambda>i. occurences i = n) (chars bd))
         = filter (\<lambda>c. int (count_list text c) = n) uc"
proof -
  have f: "title bd = title bd' \<and> authors bd = authors bd' \<and> image bd = image bd'
     \<and> file_hash bd = file_hash bd' \<and> n_words bd = n_words bd'
     \<and> n_words_unique bd = n_words_unique bd' \<and> n_chars bd = n_chars bd'
     \<and> n_chars_unique bd = n_chars_unique bd'"
    using assms(5,6) by (simp add: analyse_text_def Let_def)
  have o1: "n_words_used_once bd = n_words_used_once bd'"
    using assms(5,6) iterates_used_once[OF assms(3)] iterates_used_once[OF assms(4)]
    by (simp add: counts_analyse_text)
  have o2: "n_chars_used_once bd = n_chars_used_once bd'"
    using assms(5,6) iterates_used_once[OF assms(1)] iterates_used_once[OF assms(2)]
    by (simp add: counts_analyse_text)
  have m1: "mset (words bd) = mset (words bd')"
    using assms(5,6) with_uses_mset_order[OF assms(3,4)]
    by (simp add: words_analyse_text)
  have m2: "mset (chars bd) = mset (chars bd')"
    using assms(5,6) with_uses_mset_order[OF assms(1,2)]
    by (simp add: chars_analyse_text)
  have s1: "map ocurrences (words bd) = map ocurrences (words bd')"
    using assms(5,6) with_uses_snd_order[OF assms(3,4)] by (simp add: ocurrences_analyse_text)
  have s2: "map occurences (chars bd) = map occurences (chars bd')"
    using assms(5,6) with_uses_snd_order[OF assms(1,2)] by (simp add: occurences_analyse_text)
  have t1: "map word (filter (\<lambda>i. ocurrences i = n) (words bd))
         = filter (\<lambda>w. int (count_list tokens w) = n) uw"
    using assms(5) by (simp only: words_ties)
  have t2: "map character (filter (\<lambda>i. occurences i = n) (chars bd))
         = filter (\<lambda>c. int (count_list text c) = n) uc"
    using assms(5) by (simp only: chars_ties)
  from f o1 o2 m1 m2 s1 s2 t1 t2 show ?thesis by blast
qed

text \<open>
  The sample text, its sets iterated in the order of last occurrence and in the reverse
  order.
\<close>

theorem iteration_order_only_reorders_witness:
  "iterates (remdups neko_text) neko_text \<and> iterates (rev (remdups neko_text)) neko_text
   \<and> iterates (remdups neko_tokens) neko_tokens \<and> iterates (rev (remdups neko_tokens)) neko_tokens
   \<and> n_words_used_once (analyse_text neko_book neko_text neko_tokens (remdups neko_text)
         (remdups neko_tokens) no_frequency)
       = n_words_used_once (analyse_text neko_book neko_text neko_tokens (rev (remdups neko_text))
         (rev (remdups neko_tokens)) no_frequency)
   \<and> mset (words (analyse_text neko_book neko_text neko_tokens (remdups neko_text)
         (remdups neko_tokens) no_frequency))
       = mset (words (analyse_text neko_book neko_text neko_tokens (rev (remdups neko_text))
         (rev (remdups neko_tokens)) no_frequency))
   \<and> map ocurrences (words (analyse_text neko_book neko_text neko_tokens (remdups neko_text)
         (remdups neko_tokens) no_frequency))
       = map ocurrences (words (analyse_text neko_book neko_text neko_tokens (rev (remdups neko_text))
         (rev (remdups neko_tokens)) no_frequency))
   \<and> map word (filter (\<lambda>i. ocurrences i = 1)
         (words (analyse_text neko_book neko_text neko_tokens (remdups neko_text)
            (remdups neko_tokens) no_frequency)))
       = [[12364], [12434], [35211, 12383]]"
proof -
  have f: "filter (\<lambda>w. int (count_list neko_tokens w) = 1) (remdups neko_tokens)
      = [[12364], [12434], [35211, 12383]]"
    using neko_once(1) by simp
  show ?thesis
    using iteration_order_only_reorders[of "remdups neko_text" neko_text
        "rev (remdups neko_text)" "remdups neko_tokens" neko_tokens
        "rev (remdups neko_tokens)" _ neko_book no_frequency _ 1,
        OF iterates_remdups iterates_rev iterates_remdups iterates_rev refl refl] f
    by (simp add: iterates_remdups iterates_rev)
qed

text \<open>
  Claim C7 as stated says that two runs on the same input give the same result, the order
  among equal counts included. For the text of the two code points 97 and 98, each
  occurring once, the run that iterates the set of characters as 97, 98 and the run that
  iterates it as 98, 97 return different sequences \<open>chars\<close>.
\<close>

theorem iteration_order_changes_result:
  "iterates [97, 98] [97, 98 :: nat] \<and> iterates [98, 97] [97, 98 :: nat]
   \<and> iterates [[97], [98]] [[97], [98 :: nat]]
   \<and> map character (chars (analyse_text neko_book [97, 98] [[97], [98]] [97, 98] [[97], [98]] no_frequency))
       = [97, 98]
   \<and> map character (chars (analyse_text neko_book [97, 98] [[97], [98]] [98, 97] [[97], [98]] no_frequency))
       = [98, 97]
   \<and> analyse_text neko_book [97, 98] [[97], [98]] [97, 98] [[97], [98]] no_frequency
       \<noteq> analyse_text neko_book [97, 98] [[97], [98]] [98, 97] [[97], [98]] no_frequency"
proof -
  have i: "iterates [97, 98] [97, 98 :: nat]" "iterates [98, 97] [97, 98 :: nat]"
    "iterates [[97], [98]] [[97], [98 :: nat]]"
    by (auto simp: iterates_def)
  have "analyse_text neko_book [97, 98] [[97], [98]] [97, 98] [[97], [98]] no_frequency
       \<noteq> analyse_text neko_book [97, 98] [[97], [98]] [98, 97] [[97], [98]] no_frequency"
  proof
    assume "analyse_text neko_book [97, 98] [[97], [98]] [97, 98] [[97], [98]] no_frequency
       = analyse_text neko_book [97, 98] [[97], [98]] [98, 97] [[97], [98]] no_frequency"
    then have "map character (chars (analyse_text neko_book [97, 98] [[97], [98]] [97, 98] [[97], [98]] no_frequency))
       = map character (chars (analyse_text neko_book [97, 98] [[97], [98]] [98, 97] [[97], [98]] no_frequency))"
      by simp
    then show False by (simp only: chars_ab chars_ba) simp
  qed
  with i chars_ab chars_ba show ?thesis by blast
qed

section \<open>Claims about processing a file\<close>

text \<open>
  Claim C9, amended. For a file name whose part after the last dot is neither \<open>epub\<close>
  nor \<open>txt\<close>, \<open>process_file\<close> returns no Book: when the file could be hashed it
  raises the ValueError that names the allowed extensions, and otherwise it raises what
  \<open>sha256sum\<close> raised. For \<open>epub\<close> and \<open>txt\<close> it never raises that ValueError.
\<close>

theorem process_file_extension:
  assumes "extension = last (split_on (CHR ''.'') filename)"
  shows "(extension \<noteq> ''epub'' \<and> extension \<noteq> ''txt'' \<longrightarrow>
            (\<forall>book. process_file w filename \<noteq> Inr book)
          \<and> (\<forall>fhash. sha256sum w filename = Inr fhash \<longrightarrow>
                process_file w filename = Inl extension_error)
          \<and> (\<forall>e. sha256sum w filename = Inl e \<longrightarrow> process_file w filename = Inl e))
     \<and> (extension = ''epub'' \<or> extension = ''txt'' \<longrightarrow>
            process_file w filename \<noteq> Inl extension_error)
     \<and> extension_error
         = ValueError (''Filename extension must be one of '' @ ''epub'' @ '','' @ ''txt'')"
proof -
  have a: "extension \<noteq> ''epub'' \<and> extension \<noteq> ''txt'' \<longrightarrow>
            (\<forall>book. process_file w filename \<noteq> Inr book)
          \<and> (\<forall>fhash. sha256sum w filename = Inr fhash \<longrightarrow>
                process_file w filename = Inl extension_error)
          \<and> (\<forall>e. sha256sum w filename = Inl e \<longrightarrow> process_file w filename = Inl e)"
    using assms by (auto simp: process_file_def Let_def split: sum.splits)
  have s: "sha256sum w filename \<noteq> Inl extension_error"
    by (auto simp: sha256sum_def extension_error_def split: sum.splits)
  have e: "process_epub w filename bdir fhash \<noteq> Inl extension_error" for bdir fhash
    by (auto simp: process_epub_def extension_error_def split: sum.splits)
  have b: "extension = ''epub'' \<or> extension = ''txt'' \<longrightarrow>
            process_file w filename \<noteq> Inl extension_error"
    using assms s e by (auto simp: process_file_def Let_def split: sum.splits)
  have c: "extension_error
         = ValueError (''Filename extension must be one of '' @ ''epub'' @ '','' @ ''txt'')"
    by (simp add: extension_error_def)
  from a b c show ?thesis by blast
qed

text \<open>
  In the world where every file can be read, \<open>book.pdf\<close> is refused with the
  ValueError and \<open>neko.txt\<close> gives a Book.
\<close>

theorem process_file_extension_witness:
  "last (split_on (CHR ''.'') ''book.pdf'') = ''pdf''
   \<and> sha256sum (neko_world neko_files) ''book.pdf'' = Inr ''00''
   \<and> process_file (neko_world neko_files) ''book.pdf'' = Inl extension_error
   \<and> last (split_on (CHR ''.'') ''neko.txt'') = ''txt''
   \<and> process_file (neko_world neko_files) ''neko.txt'' = Inr neko_book
   \<and> process_file (neko_world neko_files) ''neko.txt'' \<noteq> Inl extension_error"
  using process_file_extension[of _ "''book.pdf''" "neko_world neko_files", OF refl]
    process_file_extension[of _ "''neko.txt''" "neko_world neko_files", OF refl]
  by (simp add: last_split_pdf last_split_neko sha256sum_neko process_file_neko
      del: split_on.simps)

text \<open>
  Claim C9 as stated says that every file name with another extension raises the
  ValueError that names the allowed extensions. \<open>process_file\<close> hashes the file before it
  looks at the extension: for \<open>book.pdf\<close> in a world where the file cannot be opened,
  what is raised is the error of \<open>open\<close>.
\<close>

theorem process_file_missing_file:
  "last (split_on (CHR ''.'') ''book.pdf'') \<noteq> ''epub''
   \<and> last (split_on (CHR ''.'') ''book.pdf'') \<noteq> ''txt''
   \<and> process_file (neko_world missing_files) ''book.pdf''
       = Inl (OSError ''No such file or directory'')
   \<and> process_file (neko_world missing_files) ''book.pdf''
       \<noteq> Inl extension_error"
  by (simp add: last_split_pdf process_file_def sha256sum_def neko_world_def missing_files_def
      extension_error_def del: split_on.simps)

end
